theory Spec2Isabelle
  imports Main
begin

section \<open>The KenKen solver of src/lib/kenkenSolver.ts\<close>

text \<open>
  The puzzle types of the repository (\<^verbatim>\<open>Op\<close>, \<^verbatim>\<open>Cage\<close>, \<^verbatim>\<open>Puzzle\<close>) and the function
  \<^verbatim>\<open>solveKenKen\<close> with its five local functions. The numbers of a puzzle (size, targets, cell
  values) are integers (\<open>int\<close>). Sums and differences of them are exact in the doubles of
  JavaScript at every state the solver can be in; products are not (a cage target may be
  any double), so a product is rounded to the nearest double as the code's \<^verbatim>\<open>*=\<close> does.
  Cell coordinates are 0-based indices (\<open>nat\<close>). Every place where the source can read \<^verbatim>\<open>undefined\<close>, compute
  \<^verbatim>\<open>NaN\<close> or throw a \<^verbatim>\<open>TypeError\<close> is a branch of the model.
\<close>

subsection \<open>Data model\<close>

datatype Op = Plus | Minus | Times | Divide | Equals

record Cage =
  cells :: "(nat \<times> nat) list"
  target :: int
  op :: Op

record Puzzle =
  psize :: int
  cages :: "Cage list"

text \<open>The mutable search state shared by the local functions of \<^verbatim>\<open>solveKenKen\<close>.\<close>

record State =
  grid :: "int list list"
  rowUsed :: "bool list list"
  colUsed :: "bool list list"

text \<open>
  \<open>TypeError\<close> is what JavaScript throws on reading or writing a property of
  \<^verbatim>\<open>undefined\<close>: indexing a missing row of a table, or the field of a missing cage.
\<close>

datatype error = TypeError

fun bind :: "error + 'a \<Rightarrow> ('a \<Rightarrow> error + 'b) \<Rightarrow> error + 'b" where
  "bind (Inl e) f = Inl e"
| "bind (Inr x) f = f x"

subsection \<open>JavaScript numbers, \<^verbatim>\<open>undefined\<close> and \<^verbatim>\<open>NaN\<close>\<close>

text \<open>
  A value read from an array is a number or \<^verbatim>\<open>undefined\<close> (\<open>None\<close>). In arithmetic
  \<^verbatim>\<open>undefined\<close> becomes \<^verbatim>\<open>NaN\<close>, which is again \<open>None\<close>: it propagates through
  \<^verbatim>\<open>+\<close>, \<^verbatim>\<open>-\<close>, \<^verbatim>\<open>*\<close>, and every comparison with it is false.
\<close>

type_synonym num = "int option"

definition num_add :: "num \<Rightarrow> num \<Rightarrow> num" where
  "num_add a b = (case (a, b) of (Some x, Some y) \<Rightarrow> Some (x + y) | _ \<Rightarrow> None)"

definition num_sub :: "num \<Rightarrow> num \<Rightarrow> num" where
  "num_sub a b = (case (a, b) of (Some x, Some y) \<Rightarrow> Some (x - y) | _ \<Rightarrow> None)"

definition num_eq :: "num \<Rightarrow> num \<Rightarrow> bool" where
  "num_eq a b = (case (a, b) of (Some x, Some y) \<Rightarrow> x = y | _ \<Rightarrow> False)"

definition num_ge :: "num \<Rightarrow> num \<Rightarrow> bool" where
  "num_ge a b = (case (a, b) of (Some x, Some y) \<Rightarrow> x \<ge> y | _ \<Rightarrow> False)"

definition num_le :: "num \<Rightarrow> num \<Rightarrow> bool" where
  "num_le a b = (case (a, b) of (Some x, Some y) \<Rightarrow> x \<le> y | _ \<Rightarrow> False)"

text \<open>
  \<^verbatim>\<open>a / b\<close> when the quotient is an integer. \<open>None\<close> stands for every other result of
  the division (a fraction, an infinity, \<^verbatim>\<open>NaN\<close>): the solver only compares a quotient
  with the integer target by \<^verbatim>\<open>===\<close>, or tests it with \<^verbatim>\<open>Number.isInteger\<close> first, and
  both fail on all of these.
\<close>

definition num_quot :: "num \<Rightarrow> num \<Rightarrow> int option" where
  "num_quot a b = (case (a, b) of
       (Some x, Some y) \<Rightarrow> if y \<noteq> 0 \<and> y dvd x then Some (x div y) else None
     | _ \<Rightarrow> None)"

definition num_abs :: "num \<Rightarrow> num" where
  "num_abs a = (case a of Some x \<Rightarrow> Some \<bar>x\<bar> | None \<Rightarrow> None)"

definition num_max :: "num \<Rightarrow> num \<Rightarrow> num" where
  "num_max a b = (case (a, b) of (Some x, Some y) \<Rightarrow> Some (max x y) | _ \<Rightarrow> None)"

definition num_min :: "num \<Rightarrow> num \<Rightarrow> num" where
  "num_min a b = (case (a, b) of (Some x, Some y) \<Rightarrow> Some (min x y) | _ \<Rightarrow> None)"

text \<open>\<^verbatim>\<open>values[i]\<close>: \<^verbatim>\<open>undefined\<close> past the end of the array.\<close>

definition valueAt :: "num list \<Rightarrow> nat \<Rightarrow> num" where
  "valueAt vs i = (if i < length vs then vs ! i else None)"

subsection \<open>Products of doubles\<close>

text \<open>
  A product of the solver can leave the range where doubles hold every integer. It is a
  double: a finite integer value, an infinity or \<^verbatim>\<open>NaN\<close>. \<open>roundToDouble\<close> rounds an
  integer to the nearest double, ties to the even significand of 53 bits; \<open>bitlen\<close> is the
  number of binary digits. A rounded value of \<open>2\<^sup>1\<^sup>0\<^sup>2\<^sup>4\<close> or more is an infinity.
\<close>

function bitlen :: "int \<Rightarrow> nat" where
  "bitlen a = (if a \<le> 0 then 0 else Suc (bitlen (a div 2)))"
  by pat_completeness auto
termination
  by (relation "measure nat") auto

declare bitlen.simps [simp del]

definition roundToDouble :: "int \<Rightarrow> int" where
  "roundToDouble x =
     (let a = \<bar>x\<bar> in
      if a < 2 ^ 53 then x
      else
        (let ulp = 2 ^ (bitlen a - 53); q = a div ulp; r = a mod ulp;
             q' = (if 2 * r < ulp \<or> (2 * r = ulp \<and> even q) then q else q + 1)
         in sgn x * (q' * ulp)))"

datatype double = Finite int | PlusInfinity | MinusInfinity | NotANumber

definition toDouble :: "int \<Rightarrow> double" where
  "toDouble x =
     (let y = roundToDouble x in
      if \<bar>y\<bar> \<ge> 2 ^ 1024 then (if 0 < x then PlusInfinity else MinusInfinity)
      else Finite y)"

text \<open>A value read from the grid as an operand: \<^verbatim>\<open>undefined\<close> becomes \<^verbatim>\<open>NaN\<close>.\<close>

definition double_of :: "num \<Rightarrow> double" where
  "double_of v = (case v of None \<Rightarrow> NotANumber | Some x \<Rightarrow> Finite x)"

definition double_sgn :: "double \<Rightarrow> int" where
  "double_sgn a = (case a of Finite x \<Rightarrow> sgn x | PlusInfinity \<Rightarrow> 1
                   | MinusInfinity \<Rightarrow> - 1 | NotANumber \<Rightarrow> 0)"

text \<open>
  \<^verbatim>\<open>a * b\<close>: \<^verbatim>\<open>NaN\<close> propagates, an infinity times zero is \<^verbatim>\<open>NaN\<close>, an infinity times
  anything else is an infinity of the product's sign, and a finite product is rounded.
\<close>

definition double_mul :: "double \<Rightarrow> double \<Rightarrow> double" where
  "double_mul a b =
     (case (a, b) of
        (NotANumber, _) \<Rightarrow> NotANumber
      | (_, NotANumber) \<Rightarrow> NotANumber
      | (Finite x, Finite y) \<Rightarrow> toDouble (x * y)
      | _ \<Rightarrow> (let s = double_sgn a * double_sgn b in
               if s = 0 then NotANumber
               else if 0 < s then PlusInfinity else MinusInfinity))"

text \<open>The comparisons of a double with an integer; each is false on \<^verbatim>\<open>NaN\<close>.\<close>

definition double_gt :: "double \<Rightarrow> int \<Rightarrow> bool" where
  "double_gt a t = (case a of Finite x \<Rightarrow> x > t | PlusInfinity \<Rightarrow> True | _ \<Rightarrow> False)"

definition double_ge :: "double \<Rightarrow> int \<Rightarrow> bool" where
  "double_ge a t = (case a of Finite x \<Rightarrow> x \<ge> t | PlusInfinity \<Rightarrow> True | _ \<Rightarrow> False)"

definition double_le :: "double \<Rightarrow> int \<Rightarrow> bool" where
  "double_le a t = (case a of Finite x \<Rightarrow> x \<le> t | MinusInfinity \<Rightarrow> True | _ \<Rightarrow> False)"

definition double_eq :: "double \<Rightarrow> int \<Rightarrow> bool" where
  "double_eq a t = (case a of Finite x \<Rightarrow> x = t | _ \<Rightarrow> False)"

text \<open>
  \<^verbatim>\<open>t % a\<close> for an integer \<open>t\<close>: the remainder is exact and has the sign of the dividend;
  it is \<^verbatim>\<open>NaN\<close> when the divisor is 0 or \<^verbatim>\<open>NaN\<close>, and \<open>t\<close> itself when the divisor is
  an infinity.
\<close>

definition double_rem :: "int \<Rightarrow> double \<Rightarrow> double" where
  "double_rem t a =
     (case a of
        Finite y \<Rightarrow> if y = 0 then NotANumber else Finite (sgn t * (\<bar>t\<bar> mod \<bar>y\<bar>))
      | NotANumber \<Rightarrow> NotANumber
      | _ \<Rightarrow> Finite t)"

subsection \<open>Reading and writing the tables\<close>

text \<open>
  \<^verbatim>\<open>grid[r][c]\<close>: a missing row throws, a missing column reads \<^verbatim>\<open>undefined\<close>.
\<close>

definition gridAt :: "int list list \<Rightarrow> nat \<Rightarrow> nat \<Rightarrow> error + num" where
  "gridAt g r c =
     (if r < length g
      then Inr (if c < length (g ! r) then Some (g ! r ! c) else None)
      else Inl TypeError)"

text \<open>
  \<^verbatim>\<open>rowUsed[i][v]\<close> as a condition: a missing row throws, a missing entry is
  \<^verbatim>\<open>undefined\<close>, which counts as false.
\<close>

definition usedAt :: "bool list list \<Rightarrow> nat \<Rightarrow> int \<Rightarrow> error + bool" where
  "usedAt t i v =
     (if i < length t
      then Inr (0 \<le> v \<and> nat v < length (t ! i) \<and> t ! i ! nat v)
      else Inl TypeError)"

text \<open>
  The writes \<^verbatim>\<open>grid[r][c] = v\<close> and \<^verbatim>\<open>rowUsed[i][v] = b\<close>: a missing row throws. The
  tables are created with \<open>n\<close> rows of \<open>n\<close> (grid) and \<open>n + 1\<close> (usage) entries, and every
  write of the solver is at a column \<open>c < n\<close> and a value \<open>1 \<le> v \<le> n\<close>, so no write ever
  extends a row.
\<close>

definition setCell :: "int list list \<Rightarrow> nat \<Rightarrow> nat \<Rightarrow> int \<Rightarrow> error + int list list" where
  "setCell g r c v =
     (if r < length g then Inr (g[r := (g ! r)[c := v]]) else Inl TypeError)"

definition setUsed :: "bool list list \<Rightarrow> nat \<Rightarrow> int \<Rightarrow> bool \<Rightarrow> error + bool list list" where
  "setUsed t i v b =
     (if i < length t then Inr (t[i := (t ! i)[nat v := b]]) else Inl TypeError)"

text \<open>
  \<^verbatim>\<open>grid[r][c] = v; rowUsed[r][v] = colUsed[c][v] = true;\<close> and its undoing
  \<^verbatim>\<open>grid[r][c] = 0; rowUsed[r][v] = colUsed[c][v] = false;\<close>
\<close>

definition place :: "State \<Rightarrow> nat \<Rightarrow> nat \<Rightarrow> int \<Rightarrow> error + State" where
  "place st r c v =
     bind (setCell (grid st) r c v) (\<lambda>g.
     bind (setUsed (rowUsed st) r v True) (\<lambda>ru.
     bind (setUsed (colUsed st) c v True) (\<lambda>cu.
     Inr \<lparr>grid = g, rowUsed = ru, colUsed = cu\<rparr>)))"

definition unplace :: "State \<Rightarrow> nat \<Rightarrow> nat \<Rightarrow> int \<Rightarrow> error + State" where
  "unplace st r c v =
     bind (setUsed (rowUsed st) r v False) (\<lambda>ru.
     bind (setUsed (colUsed st) c v False) (\<lambda>cu.
     bind (setCell (grid st) r c 0) (\<lambda>g.
     Inr \<lparr>grid = g, rowUsed = ru, colUsed = cu\<rparr>)))"

text \<open>The fresh tables built at the start of every call.\<close>

definition initState :: "int \<Rightarrow> State" where
  "initState n =
     \<lparr>grid = replicate (nat n) (replicate (nat n) 0),
      rowUsed = replicate (nat n) (replicate (nat n + 1) False),
      colUsed = replicate (nat n) (replicate (nat n + 1) False)\<rparr>"

text \<open>
  The cell \<open>\<rightarrow>\<close> cage lookup: a map keyed by the cell, filled cage by cage, so the last
  cage registered for a cell wins.
\<close>

definition cageOf :: "Cage list \<Rightarrow> (nat \<times> nat) \<rightharpoonup> Cage" where
  "cageOf cs = foldl (\<lambda>m cage. foldl (\<lambda>m rc. m(rc \<mapsto> cage)) m (cells cage)) Map.empty cs"

subsection \<open>The constraint oracle \<^verbatim>\<open>cageValidPartial\<close>\<close>

text \<open>The first loop: the cage's cell contents, in the order of its cells.\<close>

fun readCells :: "int list list \<Rightarrow> (nat \<times> nat) list \<Rightarrow> error + num list" where
  "readCells g [] = Inr []"
| "readCells g ((r, c) # rest) =
     bind (gridAt g r c) (\<lambda>v. bind (readCells g rest) (\<lambda>vs. Inr (v # vs)))"

definition countUnassigned :: "num list \<Rightarrow> nat" where
  "countUnassigned vs = length (filter (\<lambda>v. v = Some 0) vs)"

text \<open>\<^verbatim>\<open>for (let i = 0; i < unassigned; i++) maxPossible *= n\<close>\<close>

fun timesN :: "int \<Rightarrow> nat \<Rightarrow> double \<Rightarrow> double" where
  "timesN n 0 m = m"
| "timesN n (Suc i) m = timesN n i (double_mul m (Finite n))"

text \<open>\<^verbatim>\<open>values.find(v => v !== 0)\<close>, \<^verbatim>\<open>undefined\<close> when there is none.\<close>

definition findKnown :: "num list \<Rightarrow> num" where
  "findKnown vs = (case List.find (\<lambda>v. v \<noteq> Some 0) vs of None \<Rightarrow> None | Some v \<Rightarrow> v)"

text \<open>
  \<^verbatim>\<open>values.sort((x, y) => y - x)\<close>: numbers in descending order; \<^verbatim>\<open>sort\<close> moves
  every \<^verbatim>\<open>undefined\<close> to the end without asking the comparator.
\<close>

definition sortDesc :: "num list \<Rightarrow> num list" where
  "sortDesc vs =
     map Some (rev (sort (map the (filter (\<lambda>v. v \<noteq> None) vs)))) @ filter (\<lambda>v. v = None) vs"

definition inRange :: "int \<Rightarrow> num \<Rightarrow> bool" where
  "inRange n p = (num_ge p (Some 1) \<and> num_le p (Some n))"

definition checkValues :: "int \<Rightarrow> Cage \<Rightarrow> num list \<Rightarrow> bool" where
  "checkValues n cage vs =
     (let unassigned = countUnassigned vs; t = target cage in
      case op cage of
        Plus \<Rightarrow>
          (let sum = foldl num_add (Some 0) vs in
           if unassigned = 0 then num_eq sum (Some t)
           else if num_ge sum (Some t) then False
           else
             (let minPossible = num_add sum (Some (1 * int unassigned));
                  maxPossible = num_add sum (Some (n * int unassigned))
              in num_ge (Some t) minPossible \<and> num_le (Some t) maxPossible))
      | Times \<Rightarrow>
          (let prod = foldl (\<lambda>p v. if v \<noteq> Some 0 then double_mul p (double_of v) else p)
                        (Finite 1) vs in
           if double_gt prod t \<or> double_rem t prod \<noteq> Finite 0 then False
           else if unassigned = 0 then double_eq prod t
           else double_ge (timesN n unassigned prod) t)
      | Minus \<Rightarrow>
          (if length (cells cage) \<noteq> 2 then
             (if unassigned = 0
              then num_eq (num_abs (num_sub (valueAt vs 0) (valueAt vs 1))) (Some t)
              else True)
           else if unassigned = 2 then True
           else if unassigned = 0
              then num_eq (num_abs (num_sub (valueAt vs 0) (valueAt vs 1))) (Some t)
           else
             (let known = findKnown vs;
                  p1 = num_add known (Some t);
                  p2 = num_sub known (Some t)
              in inRange n p1 \<or> inRange n p2))
      | Divide \<Rightarrow>
          (if length (cells cage) \<noteq> 2 then
             (if unassigned = 0
              then num_quot (num_max (valueAt vs 0) (valueAt vs 1))
                            (num_min (valueAt vs 0) (valueAt vs 1)) = Some t
              else True)
           else if unassigned = 2 then True
           else if unassigned = 0
              then num_quot (valueAt (sortDesc vs) 0) (valueAt (sortDesc vs) 1) = Some t
           else
             (let known = findKnown vs;
                  asNum = num_quot known (Some t);
                  asDen = double_mul (double_of known) (Finite t)
              in (case asNum of None \<Rightarrow> False | Some q \<Rightarrow> q \<ge> 1 \<and> q \<le> n)
                 \<or> (double_ge asDen 1 \<and> double_le asDen n)))
      | Equals \<Rightarrow>
          (valueAt vs 0 = Some 0 \<or> num_eq (valueAt vs 0) (Some t)))"

definition cageValidPartial :: "int \<Rightarrow> int list list \<Rightarrow> Cage \<Rightarrow> error + bool" where
  "cageValidPartial n g cage = bind (readCells g (cells cage)) (\<lambda>vs. Inr (checkValues n cage vs))"

subsection \<open>Pre-seeding the single-cell cages\<close>

text \<open>
  The loop over \<^verbatim>\<open>puzzle.cages\<close> before the search. \<open>Inr None\<close> is the
  \<^verbatim>\<open>return null\<close> inside the loop; \<open>Inr (Some st)\<close> is the state the search starts from.
\<close>

fun preseed :: "int \<Rightarrow> Cage list \<Rightarrow> State \<Rightarrow> error + State option" where
  "preseed n [] st = Inr (Some st)"
| "preseed n (cage # rest) st =
     (if (op cage = Equals \<or> length (cells cage) = 1) \<and> length (cells cage) = 1 then
        (let (r, c) = hd (cells cage); v = target cage in
         if v < 1 \<or> v > n then Inr None
         else bind (usedAt (rowUsed st) r v) (\<lambda>ru.
              if ru then Inr None
              else bind (usedAt (colUsed st) c v) (\<lambda>cu.
                   if cu then Inr None
                   else bind (place st r c v) (\<lambda>st'. preseed n rest st'))))
      else preseed n rest st)"

subsection \<open>The candidate generator \<^verbatim>\<open>getCandidates\<close>\<close>

text \<open>
  The loop \<^verbatim>\<open>for (let v = 1; v <= n; v++)\<close> over the values still to try; \<open>cage\<close> is
  the result of the lookup \<^verbatim>\<open>cageOf.get\<close>, \<open>None\<close> when the cell has no cage.
\<close>

fun candidateLoop ::
  "int \<Rightarrow> Cage option \<Rightarrow> nat \<Rightarrow> nat \<Rightarrow> int list \<Rightarrow> State \<Rightarrow> int list \<Rightarrow> error + State \<times> int list"
where
  "candidateLoop n cage r c [] st out = Inr (st, out)"
| "candidateLoop n cage r c (v # vs) st out =
     bind (usedAt (rowUsed st) r v) (\<lambda>ru.
     if ru then candidateLoop n cage r c vs st out
     else bind (usedAt (colUsed st) c v) (\<lambda>cu.
          if cu then candidateLoop n cage r c vs st out
          else bind (place st r c v) (\<lambda>st1.
               bind (case cage of None \<Rightarrow> Inr True
                     | Some cg \<Rightarrow> cageValidPartial n (grid st1) cg) (\<lambda>ok.
               bind (unplace st1 r c v) (\<lambda>st2.
               candidateLoop n cage r c vs st2 (if ok then out @ [v] else out))))))"

definition getCandidates ::
  "int \<Rightarrow> ((nat \<times> nat) \<rightharpoonup> Cage) \<Rightarrow> State \<Rightarrow> nat \<Rightarrow> nat \<Rightarrow> error + State \<times> int list"
where
  "getCandidates n co st r c = candidateLoop n (co (r, c)) r c [1..n] st []"

subsection \<open>Cell selection \<^verbatim>\<open>selectNext\<close>\<close>

text \<open>
  The two nested loops visit the cells in row-major order; \<open>scanOrder\<close> is that order and
  \<open>scanCells\<close> the loop body over what is left of it, with the variables \<^verbatim>\<open>best\<close> and
  \<^verbatim>\<open>bestChoices\<close>. A cell is skipped when \<^verbatim>\<open>grid[r][c]\<close> is truthy (a number other
  than 0).
\<close>

definition scanOrder :: "int \<Rightarrow> (nat \<times> nat) list" where
  "scanOrder n = concat (map (\<lambda>r. map (\<lambda>c. (r, c)) [0..<nat n]) [0..<nat n])"

fun scanCells ::
  "int \<Rightarrow> ((nat \<times> nat) \<rightharpoonup> Cage) \<Rightarrow> (nat \<times> nat) list \<Rightarrow> (nat \<times> nat) option \<Rightarrow> int list \<Rightarrow> State
     \<Rightarrow> error + State \<times> (nat \<times> nat \<times> int list) option"
where
  "scanCells n co [] best bestChoices st =
     Inr (st, case best of None \<Rightarrow> None | Some (r, c) \<Rightarrow> Some (r, c, bestChoices))"
| "scanCells n co ((r, c) # rest) best bestChoices st =
     bind (gridAt (grid st) r c) (\<lambda>g.
     if g \<noteq> None \<and> g \<noteq> Some 0 then scanCells n co rest best bestChoices st
     else bind (getCandidates n co st r c) (\<lambda>(st', cand).
          if length cand = 0 then Inr (st', None)
          else if best = None \<or> length cand < length bestChoices then
            (if length cand = 1 then Inr (st', Some (r, c, cand))
             else scanCells n co rest (Some (r, c)) cand st')
          else scanCells n co rest best bestChoices st'))"

definition selectNext ::
  "int \<Rightarrow> ((nat \<times> nat) \<rightharpoonup> Cage) \<Rightarrow> State \<Rightarrow> error + State \<times> (nat \<times> nat \<times> int list) option"
where
  "selectNext n co st = scanCells n co (scanOrder n) None [] st"

subsection \<open>The search \<^verbatim>\<open>backtrack\<close>\<close>

text \<open>
  \<^verbatim>\<open>for (const cage of puzzle.cages) if (!cageValidPartial(cage)) return false; return true;\<close>
\<close>

fun allCagesValid :: "int \<Rightarrow> int list list \<Rightarrow> Cage list \<Rightarrow> error + bool" where
  "allCagesValid n g [] = Inr True"
| "allCagesValid n g (cage # rest) =
     bind (cageValidPartial n g cage) (\<lambda>ok. if ok then allCagesValid n g rest else Inr False)"

text \<open>
  \<^verbatim>\<open>backtrack\<close> calls itself inside the loop over the candidates of the selected cell
  (\<open>tryCandidates\<close>). The first argument bounds the depth of these nested calls: with
  none left the result is \<open>None\<close>. The result \<open>Some (Inr (b, st))\<close> is the returned boolean
  and the state the call leaves behind. In \<open>tryCandidates\<close>, \<open>cage\<close> is
  \<^verbatim>\<open>cageOf.get(`${r},${c}`)!\<close>: the source passes it to \<^verbatim>\<open>cageValidPartial\<close> unchecked,
  and reading \<^verbatim>\<open>cage.op\<close> of \<^verbatim>\<open>undefined\<close> throws.
\<close>

fun backtrack ::
  "nat \<Rightarrow> int \<Rightarrow> ((nat \<times> nat) \<rightharpoonup> Cage) \<Rightarrow> Cage list \<Rightarrow> State \<Rightarrow> (error + bool \<times> State) option"
and tryCandidates ::
  "nat \<Rightarrow> int \<Rightarrow> ((nat \<times> nat) \<rightharpoonup> Cage) \<Rightarrow> Cage list \<Rightarrow> nat \<Rightarrow> nat \<Rightarrow> Cage option \<Rightarrow> int list \<Rightarrow> State
     \<Rightarrow> (error + bool \<times> State) option"
where
  "backtrack 0 n co cgs st = None"
| "backtrack (Suc k) n co cgs st =
     (case selectNext n co st of
        Inl e \<Rightarrow> Some (Inl e)
      | Inr (st1, None) \<Rightarrow> Some (bind (allCagesValid n (grid st1) cgs) (\<lambda>b. Inr (b, st1)))
      | Inr (st1, Some (r, c, cand)) \<Rightarrow> tryCandidates k n co cgs r c (co (r, c)) cand st1)"
| "tryCandidates k n co cgs r c cage [] st = Some (Inr (False, st))"
| "tryCandidates k n co cgs r c cage (v # vs) st =
     (case place st r c v of
        Inl e \<Rightarrow> Some (Inl e)
      | Inr st1 \<Rightarrow>
         (case (case cage of None \<Rightarrow> Inl TypeError
                | Some cg \<Rightarrow> cageValidPartial n (grid st1) cg) of
            Inl e \<Rightarrow> Some (Inl e)
          | Inr False \<Rightarrow>
             (case unplace st1 r c v of
                Inl e \<Rightarrow> Some (Inl e)
              | Inr st2 \<Rightarrow> tryCandidates k n co cgs r c cage vs st2)
          | Inr True \<Rightarrow>
             (case backtrack k n co cgs st1 of
                None \<Rightarrow> None
              | Some (Inl e) \<Rightarrow> Some (Inl e)
              | Some (Inr (True, st2)) \<Rightarrow> Some (Inr (True, st2))
              | Some (Inr (False, st2)) \<Rightarrow>
                 (case unplace st2 r c v of
                    Inl e \<Rightarrow> Some (Inl e)
                  | Inr st3 \<Rightarrow> tryCandidates k n co cgs r c cage vs st3))))"

subsection \<open>The public function \<^verbatim>\<open>solveKenKen\<close>\<close>

text \<open>
  \<open>Some (Inr None)\<close> is \<^verbatim>\<open>null\<close>, \<open>Some (Inr (Some g))\<close> the returned grid,
  \<open>Some (Inl TypeError)\<close> a thrown exception. The search starts with a depth bound of
  \<open>n\<^sup>2 + 1\<close> nested calls, one more than the grid has cells.
\<close>

definition solveKenKen :: "Puzzle \<Rightarrow> (error + int list list option) option" where
  "solveKenKen puzzle =
     (let n = psize puzzle in
      if n < 1 then Some (Inr None)
      else
        (case preseed n (cages puzzle) (initState n) of
           Inl e \<Rightarrow> Some (Inl e)
         | Inr None \<Rightarrow> Some (Inr None)
         | Inr (Some st) \<Rightarrow>
            (case backtrack (Suc (nat n * nat n)) n (cageOf (cages puzzle)) (cages puzzle) st of
               None \<Rightarrow> None
             | Some (Inl e) \<Rightarrow> Some (Inl e)
             | Some (Inr (b, st')) \<Rightarrow> Some (Inr (if b then Some (grid st') else None)))))"

section \<open>Notions used in the properties\<close>

text \<open>
  A cage lies inside a grid when each of its cells indexes an entry of the grid. Then
  the oracle sees the numbers \<open>cellValues\<close>; the filled ones are those other than 0.
\<close>

definition cellsInGrid :: "int list list \<Rightarrow> (nat \<times> nat) list \<Rightarrow> bool" where
  "cellsInGrid g cs = list_all (\<lambda>(r, c). r < length g \<and> c < length (g ! r)) cs"

definition cellValues :: "int list list \<Rightarrow> (nat \<times> nat) list \<Rightarrow> int list" where
  "cellValues g cs = map (\<lambda>(r, c). g ! r ! c) cs"

definition filledValues :: "int list list \<Rightarrow> Cage \<Rightarrow> int list" where
  "filledValues g cage = filter (\<lambda>v. v \<noteq> 0) (cellValues g (cells cage))"

definition unassignedCount :: "int list list \<Rightarrow> Cage \<Rightarrow> nat" where
  "unassignedCount g cage = length (filter (\<lambda>v. v = 0) (cellValues g (cells cage)))"

text \<open>
  The tables of a solver state for size \<open>n\<close> have the dimensions they are created with;
  a cage is inside the grid when each of its cells is.
\<close>

definition tables_ok :: "int \<Rightarrow> State \<Rightarrow> bool" where
  "tables_ok n st \<longleftrightarrow>
     length (grid st) = nat n \<and> list_all (\<lambda>row. length row = nat n) (grid st) \<and>
     length (rowUsed st) = nat n \<and> list_all (\<lambda>row. length row = nat n + 1) (rowUsed st) \<and>
     length (colUsed st) = nat n \<and> list_all (\<lambda>row. length row = nat n + 1) (colUsed st)"

definition cageInside :: "int \<Rightarrow> Cage \<Rightarrow> bool" where
  "cageInside n cage = list_all (\<lambda>(r, c). r < nat n \<and> c < nat n) (cells cage)"

text \<open>
  What \<^verbatim>\<open>selectNext\<close> may return: an unassigned cell of the grid with its candidates,
  of which there is at least one.
\<close>

definition pick_ok ::
  "int \<Rightarrow> ((nat \<times> nat) \<rightharpoonup> Cage) \<Rightarrow> State \<Rightarrow> nat \<times> nat \<times> int list \<Rightarrow> bool" where
  "pick_ok n co st p = (case p of (r, c, cand) \<Rightarrow>
     r < nat n \<and> c < nat n \<and> grid st ! r ! c = 0 \<and> cand \<noteq> [] \<and>
     getCandidates n co st r c = Inr (st, cand))"

subsection \<open>Example puzzles\<close>

text \<open>A 1\<times>1 puzzle whose only cell is an \<open>=\<close> cage with target 1.\<close>

definition puzzle_1x1 :: Puzzle where
  "puzzle_1x1 = \<lparr>psize = 1, cages = [\<lparr>cells = [(0, 0)], target = 1, op = Equals\<rparr>]\<rparr>"

text \<open>
  A 3\<times>3 puzzle whose cages partition the grid. The three \<open>=\<close> cages leave no value
  for the cell (0, 1): 1 is in its row, 2 and 3 are in its column.
\<close>

definition puzzle_dead_cell :: Puzzle where
  "puzzle_dead_cell = \<lparr>psize = 3, cages =
     [\<lparr>cells = [(0, 0)], target = 1, op = Equals\<rparr>,
      \<lparr>cells = [(1, 1)], target = 2, op = Equals\<rparr>,
      \<lparr>cells = [(2, 1)], target = 3, op = Equals\<rparr>,
      \<lparr>cells = [(0, 1), (0, 2)], target = 5, op = Plus\<rparr>,
      \<lparr>cells = [(1, 0), (2, 0)], target = 5, op = Plus\<rparr>,
      \<lparr>cells = [(1, 2), (2, 2)], target = 3, op = Plus\<rparr>]\<rparr>"

text \<open>
  The bundled 3\<times>3 example (nine \<open>=\<close> cages forming a Latin square) without its last
  cage: the cell (2, 2) belongs to no cage.
\<close>

definition puzzle_uncovered :: Puzzle where
  "puzzle_uncovered = \<lparr>psize = 3, cages =
     [\<lparr>cells = [(0, 0)], target = 1, op = Equals\<rparr>,
      \<lparr>cells = [(0, 1)], target = 2, op = Equals\<rparr>,
      \<lparr>cells = [(0, 2)], target = 3, op = Equals\<rparr>,
      \<lparr>cells = [(1, 0)], target = 2, op = Equals\<rparr>,
      \<lparr>cells = [(1, 1)], target = 3, op = Equals\<rparr>,
      \<lparr>cells = [(1, 2)], target = 1, op = Equals\<rparr>,
      \<lparr>cells = [(2, 0)], target = 3, op = Equals\<rparr>,
      \<lparr>cells = [(2, 1)], target = 1, op = Equals\<rparr>]\<rparr>"




text \<open>
  Scenario C of the specification in its smallest form: a 4\<times>4 puzzle with a single-cell
  cage of target 5.
\<close>

definition puzzle_bad_target :: Puzzle where
  "puzzle_bad_target = \<lparr>psize = 4, cages = [\<lparr>cells = [(0, 0)], target = 5, op = Equals\<rparr>]\<rparr>"

text \<open>
  A 2\<times>2 puzzle whose first cage is a single cell outside the grid and whose second cage
  is a single cell with the target 7.
\<close>

definition puzzle_outside :: Puzzle where
  "puzzle_outside = \<lparr>psize = 2, cages =
     [\<lparr>cells = [(5, 5)], target = 1, op = Equals\<rparr>,
      \<lparr>cells = [(0, 0)], target = 7, op = Equals\<rparr>]\<rparr>"




text \<open>A two-cell cage of each arithmetic kind on a 2\<times>2 grid whose first cell holds 1.\<close>

definition sample_grid :: "int list list" where
  "sample_grid = [[1, 0], [0, 0]]"

definition sample_plus :: Cage where
  "sample_plus = \<lparr>cells = [(0, 0), (0, 1)], target = 3, op = Plus\<rparr>"

definition sample_times :: Cage where
  "sample_times = \<lparr>cells = [(0, 0), (0, 1)], target = 2, op = Times\<rparr>"

text \<open>
  A 7\<times>7 grid as the first probe of \<^verbatim>\<open>getCandidates\<close> leaves it (1 in the first cell),
  and a \<open>\<times>\<close> cage of its first 20 cells in row-major order with the target \<open>7\<^sup>1\<^sup>9 + 1\<close>.
\<close>

definition rounding_grid :: "int list list" where
  "rounding_grid =
     [[1, 0, 0, 0, 0, 0, 0], [0, 0, 0, 0, 0, 0, 0], [0, 0, 0, 0, 0, 0, 0],
      [0, 0, 0, 0, 0, 0, 0], [0, 0, 0, 0, 0, 0, 0], [0, 0, 0, 0, 0, 0, 0],
      [0, 0, 0, 0, 0, 0, 0]]"

definition rounding_cage :: Cage where
  "rounding_cage =
     \<lparr>cells = [(0, 0), (0, 1), (0, 2), (0, 3), (0, 4), (0, 5), (0, 6),
               (1, 0), (1, 1), (1, 2), (1, 3), (1, 4), (1, 5), (1, 6),
               (2, 0), (2, 1), (2, 2), (2, 3), (2, 4), (2, 5)],
      target = 11398895185373144, op = Times\<rparr>"

section \<open>The oracle on sum and product cages\<close>

lemma readCells_inGrid:
  "cellsInGrid g cs \<Longrightarrow> readCells g cs = Inr (map Some (cellValues g cs))"
  by (induction cs) (auto simp: cellsInGrid_def cellValues_def gridAt_def)

lemma countUnassigned_Some:
  "countUnassigned (map Some vs) = length (filter (\<lambda>v. v = 0) vs)"
  by (induction vs) (auto simp: countUnassigned_def)

lemma foldl_num_add: "foldl num_add (Some a) (map Some vs) = Some (a + sum_list vs)"
  by (induction vs arbitrary: a) (auto simp: num_add_def)

lemma sum_list_filter_nonzero: "sum_list (filter (\<lambda>v. v \<noteq> 0) vs) = sum_list (vs :: int list)"
  by (induction vs) auto

lemma prod_list_nonzero: "prod_list (filter (\<lambda>v. v \<noteq> 0) vs) \<noteq> (0 :: int)"
  by (induction vs) auto

lemma checkValues_Plus:
  assumes "op cage = Plus"
  shows "checkValues n cage (map Some vs) =
     (let s = sum_list vs; u = length (filter (\<lambda>v. v = 0) vs) in
      if u = 0 then s = target cage
      else \<not> s \<ge> target cage \<and> s + int u \<le> target cage \<and> target cage \<le> s + n * int u)"
  unfolding checkValues_def countUnassigned_Some foldl_num_add Let_def
  by (simp add: assms num_eq_def num_ge_def num_le_def num_add_def)

lemma cageValidPartial_Plus:
  assumes "op cage = Plus" and "cellsInGrid g (cells cage)"
  shows "cageValidPartial n g cage =
     Inr (let s = sum_list (filledValues g cage); u = unassignedCount g cage in
          if u = 0 then s = target cage
          else \<not> s \<ge> target cage \<and> s + int u \<le> target cage \<and> target cage \<le> s + n * int u)"
  by (simp add: cageValidPartial_def readCells_inGrid [OF assms(2)] checkValues_Plus [OF assms(1)]
      filledValues_def unassignedCount_def sum_list_filter_nonzero)

text \<open>
  C7. For a \<open>+\<close> cage inside the grid, with \<open>s\<close> the total of its filled values and \<open>u\<close>
  the number of its zero cells: when \<open>u = 0\<close> the oracle accepts iff \<open>s = target\<close>;
  otherwise it rejects whenever \<open>s \<ge> target\<close>, and it accepts iff
  \<open>s + u \<le> target \<le> s + n\<cdot>u\<close>.
\<close>

theorem plus_oracle:
  assumes "op cage = Plus" and "cellsInGrid g (cells cage)"
    and "s = sum_list (filledValues g cage)" and "u = unassignedCount g cage"
  shows "(u = 0 \<longrightarrow> cageValidPartial n g cage = Inr (s = target cage))
       \<and> (u \<noteq> 0 \<and> s \<ge> target cage \<longrightarrow> cageValidPartial n g cage = Inr False)
       \<and> (u \<noteq> 0 \<longrightarrow> cageValidPartial n g cage
                        = Inr (s + int u \<le> target cage \<and> target cage \<le> s + n * int u))"
proof -
  have pos: "u \<noteq> 0 \<Longrightarrow> 1 \<le> int u" by simp
  have eq: "cageValidPartial n g cage =
     Inr (if u = 0 then s = target cage
          else \<not> s \<ge> target cage \<and> s + int u \<le> target cage \<and> target cage \<le> s + n * int u)"
    using cageValidPartial_Plus [OF assms(1,2), of n] by (simp add: Let_def assms(3,4))
  show ?thesis
  proof (cases "u = 0")
    case True
    then show ?thesis by (simp add: eq)
  next
    case False
    with pos have "1 \<le> int u" by simp
    with False show ?thesis unfolding eq by auto
  qed
qed

theorem plus_oracle_witness:
  "op sample_plus = Plus \<and> cellsInGrid sample_grid (cells sample_plus)
   \<and> sum_list (filledValues sample_grid sample_plus) = 1
   \<and> unassignedCount sample_grid sample_plus = 1
   \<and> cageValidPartial 2 sample_grid sample_plus = Inr True"
proof -
  have h1: "op sample_plus = Plus" by (simp add: sample_plus_def)
  have h2: "cellsInGrid sample_grid (cells sample_plus)"
    by (simp add: sample_plus_def sample_grid_def cellsInGrid_def)
  have h3: "1 = sum_list (filledValues sample_grid sample_plus)"
    by (simp add: sample_plus_def sample_grid_def filledValues_def cellValues_def)
  have h4: "1 = unassignedCount sample_grid sample_plus"
    by (simp add: sample_plus_def sample_grid_def unassignedCount_def cellValues_def)
  have "target sample_plus = 3" by (simp add: sample_plus_def)
  with plus_oracle [OF h1 h2 h3 h4, of 2] h1 h2 h3 h4 show ?thesis by simp
qed

lemma roundToDouble_exact: "\<bar>x\<bar> < 2 ^ 53 \<Longrightarrow> roundToDouble x = x"
  by (simp add: roundToDouble_def)

lemma toDouble_exact:
  assumes "\<bar>x\<bar> < 2 ^ 53"
  shows "toDouble x = Finite x"
proof -
  have "(2::int) ^ 53 \<le> 2 ^ 1024" by (rule power_increasing) simp_all
  with assms have "\<not> \<bar>x\<bar> \<ge> 2 ^ 1024" by linarith
  then show ?thesis
    unfolding toDouble_def roundToDouble_exact [OF assms] Let_def by (rule if_not_P)
qed

lemma abs_prod_list_nonzero: "1 \<le> \<bar>prod_list (filter (\<lambda>v. v \<noteq> 0) vs) :: int\<bar>"
  using prod_list_nonzero [of vs] by linarith

lemma abs_factor_le:
  fixes a b :: int
  assumes "1 \<le> \<bar>b\<bar>"
  shows "\<bar>a\<bar> \<le> \<bar>a * b\<bar>"
proof -
  have "\<bar>a\<bar> * 1 \<le> \<bar>a\<bar> * \<bar>b\<bar>" by (rule mult_left_mono) (use assms in simp_all)
  then show ?thesis by (simp add: abs_mult)
qed

lemma foldl_double_mul:
  "\<bar>a * prod_list (filter (\<lambda>v. v \<noteq> 0) vs)\<bar> < 2 ^ 53 \<Longrightarrow>
   foldl (\<lambda>p v. if v \<noteq> Some 0 then double_mul p (double_of v) else p) (Finite a) (map Some vs)
     = Finite (a * prod_list (filter (\<lambda>v. v \<noteq> 0) vs))"
proof (induction vs arbitrary: a)
  case Nil
  then show ?case by simp
next
  case (Cons v vs)
  show ?case
  proof (cases "v = 0")
    case True
    with Cons show ?thesis by simp
  next
    case False
    let ?rest = "prod_list (filter (\<lambda>v. v \<noteq> 0) vs)"
    from Cons.prems False have bound: "\<bar>(a * v) * ?rest\<bar> < 2 ^ 53" by (simp add: mult.assoc)
    from abs_factor_le [OF abs_prod_list_nonzero, of "a * v" vs] bound
    have "\<bar>a * v\<bar> < 2 ^ 53" by linarith
    then have "double_mul (Finite a) (double_of (Some v)) = Finite (a * v)"
      by (simp add: double_mul_def double_of_def toDouble_exact)
    with False Cons.IH [OF bound] show ?thesis by (simp add: mult.assoc)
  qed
qed

lemma timesN_Finite:
  "\<bar>p\<bar> < 2 ^ 53 \<Longrightarrow> \<bar>p * n ^ u\<bar> < 2 ^ 53 \<Longrightarrow> timesN n u (Finite p) = Finite (p * n ^ u)"
proof (induction u arbitrary: p)
  case 0
  then show ?case by simp
next
  case (Suc u)
  have step: "\<bar>p * n\<bar> < 2 ^ 53"
  proof (cases "n = 0")
    case True
    then show ?thesis by simp
  next
    case False
    then have "1 \<le> \<bar>n ^ u\<bar>" by (simp add: power_abs)
    from abs_factor_le [OF this, of "p * n"] Suc.prems(2) show ?thesis
      by (simp add: mult.assoc)
  qed
  then have "double_mul (Finite p) (Finite n) = Finite (p * n)"
    by (simp add: double_mul_def toDouble_exact)
  moreover from Suc.prems(2) have "\<bar>(p * n) * n ^ u\<bar> < 2 ^ 53" by (simp add: mult.assoc)
  ultimately show ?case using Suc.IH [OF step] by (simp add: mult.assoc)
qed

lemma double_rem_zero_iff:
  assumes "p \<noteq> 0"
  shows "double_rem t (Finite p) \<noteq> Finite 0 \<longleftrightarrow> t mod p \<noteq> 0"
proof -
  have "\<bar>t\<bar> mod \<bar>p\<bar> = 0 \<longleftrightarrow> t mod p = 0"
    by (simp add: mod_eq_0_iff_dvd)
  moreover have "t = 0 \<Longrightarrow> t mod p = 0" by simp
  ultimately show ?thesis
    using assms by (auto simp: double_rem_def sgn_if)
qed

lemma checkValues_Times:
  assumes "op cage = Times"
    and "\<bar>prod_list (filter (\<lambda>v. v \<noteq> 0) vs)\<bar> < 2 ^ 53"
    and "\<bar>prod_list (filter (\<lambda>v. v \<noteq> 0) vs) * n ^ length (filter (\<lambda>v. v = 0) vs)\<bar> < 2 ^ 53"
  shows "checkValues n cage (map Some vs) =
     (let p = prod_list (filter (\<lambda>v. v \<noteq> 0) vs); u = length (filter (\<lambda>v. v = 0) vs) in
      if p > target cage \<or> target cage mod p \<noteq> 0 then False
      else if u = 0 then p = target cage
      else p * n ^ u \<ge> target cage)"
proof -
  from assms(2) have f: "foldl (\<lambda>p v. if v \<noteq> Some 0 then double_mul p (double_of v) else p)
      (Finite 1) (map Some vs) = Finite (prod_list (filter (\<lambda>v. v \<noteq> 0) vs))"
    using foldl_double_mul [of 1 vs] by simp
  show ?thesis
    unfolding checkValues_def countUnassigned_Some f Let_def
    by (simp add: assms(1) double_rem_zero_iff [OF prod_list_nonzero]
        timesN_Finite [OF assms(2,3)] double_eq_def double_ge_def double_gt_def)
qed

lemma cageValidPartial_Times:
  assumes "op cage = Times" and "cellsInGrid g (cells cage)"
    and "\<bar>prod_list (filledValues g cage)\<bar> < 2 ^ 53"
    and "\<bar>prod_list (filledValues g cage) * n ^ unassignedCount g cage\<bar> < 2 ^ 53"
  shows "cageValidPartial n g cage =
     Inr (let p = prod_list (filledValues g cage); u = unassignedCount g cage in
          if p > target cage \<or> target cage mod p \<noteq> 0 then False
          else if u = 0 then p = target cage
          else p * n ^ u \<ge> target cage)"
  using assms(3,4)
  by (simp add: cageValidPartial_def readCells_inGrid [OF assms(2)] checkValues_Times [OF assms(1)]
      filledValues_def unassignedCount_def)

text \<open>
  C8, as the code has it. For a \<open>\<times>\<close> cage inside the grid, with \<open>p\<close> the product of its
  filled values (1 when none is filled) and \<open>u\<close> the number of its zero cells, and as long
  as \<open>p\<close> and \<open>p \<cdot> n\<^sup>u\<close> are below \<open>2\<^sup>5\<^sup>3\<close> in absolute value (where the
  double products of the code are exact): the oracle rejects whenever \<open>p > target\<close> or
  \<open>target mod p \<noteq> 0\<close>; when \<open>u = 0\<close> it accepts iff \<open>p = target\<close>; otherwise, past the
  first test, it accepts iff \<open>p \<cdot> n\<^sup>u \<ge> target\<close>.
\<close>

theorem times_oracle:
  assumes "op cage = Times" and "cellsInGrid g (cells cage)"
    and "p = prod_list (filledValues g cage)" and "u = unassignedCount g cage"
    and "\<bar>p\<bar> < 2 ^ 53" and "\<bar>p * n ^ u\<bar> < 2 ^ 53"
  shows "(p > target cage \<or> target cage mod p \<noteq> 0 \<longrightarrow> cageValidPartial n g cage = Inr False)
       \<and> (u = 0 \<longrightarrow> cageValidPartial n g cage = Inr (p = target cage))
       \<and> (u \<noteq> 0 \<and> \<not> (p > target cage \<or> target cage mod p \<noteq> 0) \<longrightarrow>
            cageValidPartial n g cage = Inr (p * n ^ u \<ge> target cage))"
proof -
  have eq: "cageValidPartial n g cage =
     Inr (if p > target cage \<or> target cage mod p \<noteq> 0 then False
          else if u = 0 then p = target cage
          else p * n ^ u \<ge> target cage)"
    using cageValidPartial_Times [OF assms(1,2), of n] assms(5,6)
    by (simp add: Let_def assms(3,4))
  show ?thesis
  proof (cases "p > target cage \<or> target cage mod p \<noteq> 0")
    case True
    then have "p \<noteq> target cage" by auto
    with True show ?thesis by (simp add: eq)
  next
    case False
    then show ?thesis by (simp add: eq)
  qed
qed

theorem times_oracle_witness:
  "op sample_times = Times \<and> cellsInGrid sample_grid (cells sample_times)
   \<and> prod_list (filledValues sample_grid sample_times) = 1
   \<and> unassignedCount sample_grid sample_times = 1
   \<and> cageValidPartial 2 sample_grid sample_times = Inr True"
proof -
  have h1: "op sample_times = Times" by (simp add: sample_times_def)
  have h2: "cellsInGrid sample_grid (cells sample_times)"
    by (simp add: sample_times_def sample_grid_def cellsInGrid_def)
  have h3: "1 = prod_list (filledValues sample_grid sample_times)"
    by (simp add: sample_times_def sample_grid_def filledValues_def cellValues_def)
  have h4: "1 = unassignedCount sample_grid sample_times"
    by (simp add: sample_times_def sample_grid_def unassignedCount_def cellValues_def)
  have h5: "\<bar>1 :: int\<bar> < 2 ^ 53" and h6: "\<bar>1 * 2 ^ 1 :: int\<bar> < 2 ^ 53" by simp_all
  have "target sample_times = 2" by (simp add: sample_times_def)
  with times_oracle [OF h1 h2 h3 h4 h5 h6] h1 h2 h3 h4 show ?thesis by simp
qed

text \<open>
  C8 as stated fails beyond that range. On a 7\<times>7 grid whose first cell holds 1, the
  20-cell cage \<open>rounding_cage\<close> has \<open>p = 1\<close>, \<open>u = 19\<close> and the target \<open>7\<^sup>1\<^sup>9 + 1\<close>, so
  \<open>p \<cdot> n\<^sup>u < target\<close>; the loop of the code rounds \<open>7\<^sup>1\<^sup>9\<close> up to the target and the
  oracle accepts.
\<close>

theorem times_oracle_rounds:
  "op rounding_cage = Times \<and> cellsInGrid rounding_grid (cells rounding_cage)
   \<and> prod_list (filledValues rounding_grid rounding_cage) = 1
   \<and> unassignedCount rounding_grid rounding_cage = 19
   \<and> target rounding_cage mod 1 = 0
   \<and> (1 :: int) * 7 ^ 19 < target rounding_cage
   \<and> cageValidPartial 7 rounding_grid rounding_cage = Inr True"
  by code_simp

section \<open>The candidate generator and the state\<close>

lemma bind_eq_Inr: "bind m f = Inr y \<longleftrightarrow> (\<exists>x. m = Inr x \<and> f x = Inr y)"
  by (cases m) auto

lemma setUsed_restore:
  assumes "usedAt t i v = Inr False" and "0 \<le> v" and "setUsed t i v True = Inr t1"
  shows "setUsed t1 i v False = Inr t"
proof -
  from assms(1) have i: "i < length t" by (simp add: usedAt_def split: if_splits)
  have "(t ! i)[nat v := False] = t ! i"
  proof (cases "nat v < length (t ! i)")
    case True
    with assms(1,2) i have "t ! i ! nat v = False" by (simp add: usedAt_def)
    then show ?thesis by (metis list_update_id)
  next
    case False
    then show ?thesis by (simp add: list_update_beyond)
  qed
  with assms(3) i show ?thesis by (auto simp: setUsed_def)
qed

lemma setCell_restore:
  assumes "gridAt g r c = Inr (Some 0)" and "setCell g r c v = Inr g1"
  shows "setCell g1 r c 0 = Inr g"
proof -
  from assms(1) have r: "r < length g" and "c < length (g ! r)" and "g ! r ! c = 0"
    by (auto simp: gridAt_def split: if_splits)
  then have "(g ! r)[c := 0] = g ! r"
    by (metis list_update_id)
  with assms(2) r show ?thesis by (auto simp: setCell_def)
qed

lemma place_grid:
  "place st r c v = Inr st1 \<Longrightarrow> setCell (grid st) r c v = Inr (grid st1)"
  by (auto simp: place_def bind_eq_Inr)

lemma place_rowUsed:
  "place st r c v = Inr st1 \<Longrightarrow> setUsed (rowUsed st) r v True = Inr (rowUsed st1)"
  by (auto simp: place_def bind_eq_Inr)

lemma place_colUsed:
  "place st r c v = Inr st1 \<Longrightarrow> setUsed (colUsed st) c v True = Inr (colUsed st1)"
  by (auto simp: place_def bind_eq_Inr)

lemma unplace_place:
  assumes "gridAt (grid st) r c = Inr (Some 0)"
    and "usedAt (rowUsed st) r v = Inr False" and "usedAt (colUsed st) c v = Inr False"
    and "0 \<le> v" and "place st r c v = Inr st1"
  shows "unplace st1 r c v = Inr st"
  using setCell_restore [OF assms(1) place_grid [OF assms(5)]]
    setUsed_restore [OF assms(2) assms(4) place_rowUsed [OF assms(5)]]
    setUsed_restore [OF assms(3) assms(4) place_colUsed [OF assms(5)]]
  by (simp add: unplace_def)

lemma candidateLoop_restore:
  assumes "gridAt (grid st) r c = Inr (Some 0)" and "\<forall>v\<in>set vs. 0 \<le> v"
    and "candidateLoop n cage r c vs st out = Inr (st', out')"
  shows "st' = st \<and> (\<forall>v\<in>set out'. v \<in> set out \<or>
           (v \<in> set vs \<and> usedAt (rowUsed st) r v = Inr False \<and> usedAt (colUsed st) c v = Inr False))"
  using assms(2,3)
proof (induction vs arbitrary: out)
  case Nil
  then show ?case by simp
next
  case (Cons v vs)
  from Cons.prems(1) have v: "0 \<le> v" and vs: "\<forall>v\<in>set vs. 0 \<le> v" by simp_all
  from Cons.prems(2) obtain ru where ru: "usedAt (rowUsed st) r v = Inr ru"
    by (auto simp: bind_eq_Inr)
  show ?case
  proof (cases ru)
    case True
    with Cons.prems(2) ru have "candidateLoop n cage r c vs st out = Inr (st', out')" by simp
    from Cons.IH [OF vs this] show ?thesis by auto
  next
    case False
    note nru = this
    with Cons.prems(2) ru obtain cu where cu: "usedAt (colUsed st) c v = Inr cu"
      by (auto simp: bind_eq_Inr)
    show ?thesis
    proof (cases cu)
      case True
      with Cons.prems(2) ru nru cu have "candidateLoop n cage r c vs st out = Inr (st', out')"
        by simp
      from Cons.IH [OF vs this] show ?thesis by auto
    next
      case False
      with Cons.prems(2) ru nru cu obtain st1 ok st2 where
        p: "place st r c v = Inr st1" and u: "unplace st1 r c v = Inr st2"
        and rest: "candidateLoop n cage r c vs st2 (if ok then out @ [v] else out) = Inr (st', out')"
        by (auto simp: bind_eq_Inr)
      from unplace_place [OF assms(1) _ _ v p] ru nru cu False u have "st2 = st" by simp
      with rest Cons.IH [OF vs, of "if ok then out @ [v] else out"] ru nru cu False
      show ?thesis by (auto split: if_splits)
    qed
  qed
qed


lemma usedAt_ok: "i < length t \<Longrightarrow> \<exists>b. usedAt t i v = Inr b"
  by (simp add: usedAt_def)

lemma list_all_update: "list_all P xs \<Longrightarrow> P y \<Longrightarrow> list_all P (xs[i := y])"
  by (induction xs arbitrary: i) (auto split: nat.splits)

lemma list_all_nth: "list_all P xs \<Longrightarrow> i < length xs \<Longrightarrow> P (xs ! i)"
  by (simp add: list_all_length)

lemma place_ok:
  "tables_ok n st \<Longrightarrow> r < nat n \<Longrightarrow> c < nat n \<Longrightarrow> \<exists>st1. place st r c v = Inr st1"
  by (simp add: tables_ok_def place_def setCell_def setUsed_def)

lemma unplace_ok:
  "tables_ok n st \<Longrightarrow> r < nat n \<Longrightarrow> c < nat n \<Longrightarrow> \<exists>st1. unplace st r c v = Inr st1"
  by (simp add: tables_ok_def unplace_def setCell_def setUsed_def)

lemma setCell_dims:
  assumes "setCell g r c v = Inr g1" and "list_all (\<lambda>row. length row = m) g"
  shows "length g1 = length g \<and> list_all (\<lambda>row. length row = m) g1"
proof -
  from assms(1) have r: "r < length g" and g1: "g1 = g[r := (g ! r)[c := v]]"
    by (auto simp: setCell_def split: if_splits)
  from list_all_nth [OF assms(2) r] have "length ((g ! r)[c := v]) = m" by simp
  with assms(2) show ?thesis unfolding g1 by (simp add: list_all_update)
qed

lemma setUsed_dims:
  assumes "setUsed t i v b = Inr t1" and "list_all (\<lambda>row. length row = m) t"
  shows "length t1 = length t \<and> list_all (\<lambda>row. length row = m) t1"
proof -
  from assms(1) have i: "i < length t" and t1: "t1 = t[i := (t ! i)[nat v := b]]"
    by (auto simp: setUsed_def split: if_splits)
  from list_all_nth [OF assms(2) i] have "length ((t ! i)[nat v := b]) = m" by simp
  with assms(2) show ?thesis unfolding t1 by (simp add: list_all_update)
qed

lemma place_tables_ok:
  assumes "tables_ok n st" and "place st r c v = Inr st1"
  shows "tables_ok n st1"
  using assms(1) setCell_dims [OF place_grid [OF assms(2)], of "nat n"]
    setUsed_dims [OF place_rowUsed [OF assms(2)], of "nat n + 1"]
    setUsed_dims [OF place_colUsed [OF assms(2)], of "nat n + 1"]
  by (simp add: tables_ok_def)




lemma upto_nonneg: "\<forall>v\<in>set [1..n]. 0 \<le> v"
  by simp




section \<open>Cell selection\<close>

lemma scanOrder_set: "(r, c) \<in> set (scanOrder n) \<longleftrightarrow> r < nat n \<and> c < nat n"
  by (force simp: scanOrder_def)

lemma gridAt_tables:
  "tables_ok n st \<Longrightarrow> r < nat n \<Longrightarrow> c < nat n \<Longrightarrow>
     gridAt (grid st) r c = Inr (Some (grid st ! r ! c))"
  by (simp add: gridAt_def tables_ok_def list_all_length)

lemma getCandidates_props:
  assumes "gridAt (grid st) r c = Inr (Some 0)"
    and "getCandidates n co st r c = Inr (st', cand)"
  shows "st' = st \<and> (\<forall>v\<in>set cand. 1 \<le> v \<and> v \<le> n \<and>
           usedAt (rowUsed st) r v = Inr False \<and> usedAt (colUsed st) c v = Inr False)"
  using candidateLoop_restore [OF assms(1) upto_nonneg, where out = "[]" and cage = "co (r, c)"
      and st' = st' and out' = cand and n1 = n and n = n] assms(2)
  by (auto simp: getCandidates_def)

lemma scanCells_props:
  assumes "tables_ok n st" and "\<forall>(r, c)\<in>set cs. r < nat n \<and> c < nat n"
    and "scanCells n co cs best bc st = Inr (st', res)"
  shows "st' = st \<and> (case res of None \<Rightarrow> True
           | Some (r, c, cand) \<Rightarrow> (best = Some (r, c) \<and> cand = bc) \<or> pick_ok n co st (r, c, cand))"
  using assms(2,3)
proof (induction cs arbitrary: best bc)
  case Nil
  then show ?case by (auto split: option.splits)
next
  case (Cons rc cs)
  obtain r c where rc: "rc = (r, c)" by (cases rc)
  from Cons.prems(1) rc have r: "r < nat n" and c: "c < nat n"
    and cs: "\<forall>(r, c)\<in>set cs. r < nat n \<and> c < nat n" by auto
  note g = gridAt_tables [OF assms(1) r c]
  show ?case
  proof (cases "grid st ! r ! c = 0")
    case False
    with Cons.prems(2) rc g have "scanCells n co cs best bc st = Inr (st', res)" by simp
    from Cons.IH [OF cs this] show ?thesis .
  next
    case True
    with Cons.prems(2) rc g obtain st1 cand where
      gc: "getCandidates n co st r c = Inr (st1, cand)"
      and rest: "(if length cand = 0 then Inr (st1, None)
          else if best = None \<or> length cand < length bc then
            (if length cand = 1 then Inr (st1, Some (r, c, cand))
             else scanCells n co cs (Some (r, c)) cand st1)
          else scanCells n co cs best bc st1) = Inr (st', res)"
      by (auto simp: bind_eq_Inr)
    from getCandidates_props [OF _ gc] g True have st1: "st1 = st" by simp
    have pk: "cand \<noteq> [] \<Longrightarrow> pick_ok n co st (r, c, cand)"
      using r c True gc st1 by (simp add: pick_ok_def)
    show ?thesis
    proof (cases "length cand = 0")
      case True
      with rest st1 show ?thesis by simp
    next
      case ne: False
      then have "cand \<noteq> []" by auto
      note pk = pk [OF this]
      show ?thesis
      proof (cases "best = None \<or> length cand < length bc")
        case better: True
        show ?thesis
        proof (cases "length cand = 1")
          case True
          with rest better ne st1 pk show ?thesis by auto
        next
          case False
          with rest better ne st1
          have "scanCells n co cs (Some (r, c)) cand st = Inr (st', res)" by simp
          from Cons.IH [OF cs this] pk ne show ?thesis
            by (auto split: option.splits)
        qed
      next
        case False
        then have "(if best = None \<or> length cand < length bc then
            (if length cand = 1 then Inr (st1, Some (r, c, cand))
             else scanCells n co cs (Some (r, c)) cand st1)
          else scanCells n co cs best bc st1) = scanCells n co cs best bc st1"
          by (rule if_not_P)
        with rest ne st1 have "scanCells n co cs best bc st = Inr (st', res)" by simp
        from Cons.IH [OF cs this] show ?thesis .
      qed
    qed
  qed
qed

lemma selectNext_props:
  assumes "tables_ok n st" and "selectNext n co st = Inr (st', res)"
  shows "st' = st \<and> (\<forall>p. res = Some p \<longrightarrow> pick_ok n co st p)"
proof -
  have "\<forall>(r, c)\<in>set (scanOrder n). r < nat n \<and> c < nat n"
    by (auto simp: scanOrder_set)
  from scanCells_props [OF assms(1) this, of co None "[]" st' res] assms(2)
  show ?thesis by (auto simp: selectNext_def split: option.splits)
qed





section \<open>Pre-seeding\<close>

lemma initState_ok: "tables_ok n (initState n)"
  by (simp add: tables_ok_def initState_def list_all_length)

lemma usedAt_setUsed_keep:
  assumes "setUsed t i v True = Inr t1" and "usedAt t j w = Inr True"
  shows "usedAt t1 j w = Inr True"
proof -
  from assms(1) have i: "i < length t" and t1: "t1 = t[i := (t ! i)[nat v := True]]"
    by (auto simp: setUsed_def split: if_splits)
  from assms(2) have j: "j < length t" and w: "0 \<le> w" "nat w < length (t ! j)" "t ! j ! nat w"
    by (auto simp: usedAt_def split: if_splits)
  show ?thesis
  proof (cases "j = i")
    case True
    have "(t ! i)[nat v := True] ! nat w"
    proof (cases "nat v < length (t ! i)")
      case True
      with w \<open>j = i\<close> show ?thesis by (simp add: nth_list_update)
    next
      case False
      with w \<open>j = i\<close> show ?thesis by (simp add: list_update_beyond)
    qed
    with True i j w show ?thesis unfolding t1 usedAt_def by simp
  next
    case False
    with i j w show ?thesis unfolding t1 usedAt_def by simp
  qed
qed

lemma usedAt_setUsed_same:
  assumes "setUsed t i v True = Inr t1" and "0 \<le> v" and "nat v < length (t ! i)"
  shows "usedAt t1 i v = Inr True"
proof -
  from assms(1) have i: "i < length t" and t1: "t1 = t[i := (t ! i)[nat v := True]]"
    by (auto simp: setUsed_def split: if_splits)
  with assms(2,3) show ?thesis unfolding t1 usedAt_def by simp
qed

lemma place_marks:
  assumes "tables_ok n st" and "1 \<le> v" and "v \<le> n" and "place st r c v = Inr st1"
  shows "usedAt (rowUsed st1) r v = Inr True \<and> usedAt (colUsed st1) c v = Inr True"
proof -
  note ru = place_rowUsed [OF assms(4)] and cu = place_colUsed [OF assms(4)]
  from ru have r: "r < length (rowUsed st)" by (auto simp: setUsed_def split: if_splits)
  from cu have c: "c < length (colUsed st)" by (auto simp: setUsed_def split: if_splits)
  from assms(1) r have "length (rowUsed st ! r) = nat n + 1"
    by (simp add: tables_ok_def list_all_length)
  moreover from assms(1) c have "length (colUsed st ! c) = nat n + 1"
    by (simp add: tables_ok_def list_all_length)
  ultimately show ?thesis
    using usedAt_setUsed_same [OF ru] usedAt_setUsed_same [OF cu] assms(2,3) by simp
qed

lemma place_keeps:
  assumes "place st r c v = Inr st1"
  shows "usedAt (rowUsed st) j w = Inr True \<Longrightarrow> usedAt (rowUsed st1) j w = Inr True"
    and "usedAt (colUsed st) j w = Inr True \<Longrightarrow> usedAt (colUsed st1) j w = Inr True"
  using usedAt_setUsed_keep [OF place_rowUsed [OF assms]]
    usedAt_setUsed_keep [OF place_colUsed [OF assms]] by blast+

lemma preseed_skip:
  "length (cells cage) \<noteq> 1 \<Longrightarrow> preseed n (cage # rest) st = preseed n rest st"
  by simp

lemma preseed_step:
  assumes "tables_ok n st" and "length (cells cage) = 1" and "cageInside n cage"
    and "hd (cells cage) = (r, c)"
  shows "\<exists>st1 ru cu. usedAt (rowUsed st) r (target cage) = Inr ru
        \<and> usedAt (colUsed st) c (target cage) = Inr cu
        \<and> place st r c (target cage) = Inr st1 \<and> tables_ok n st1
        \<and> preseed n (cage # rest) st =
            (if target cage < 1 \<or> n < target cage \<or> ru \<or> cu then Inr None
             else preseed n rest st1)"
proof -
  from assms(2) obtain x where "cells cage = [x]" by (cases "cells cage") auto
  with assms(3,4) have r: "r < nat n" and c: "c < nat n" by (auto simp: cageInside_def)
  from assms(1) r obtain ru where ru: "usedAt (rowUsed st) r (target cage) = Inr ru"
    using usedAt_ok [of r "rowUsed st"] by (auto simp: tables_ok_def)
  from assms(1) c obtain cu where cu: "usedAt (colUsed st) c (target cage) = Inr cu"
    using usedAt_ok [of c "colUsed st"] by (auto simp: tables_ok_def)
  from place_ok [OF assms(1) r c] obtain st1 where p: "place st r c (target cage) = Inr st1"
    by blast
  from assms(2,4) ru cu p have "preseed n (cage # rest) st =
            (if target cage < 1 \<or> n < target cage \<or> ru \<or> cu then Inr None
             else preseed n rest st1)" by (auto simp: Let_def)
  with ru cu p place_tables_ok [OF assms(1) p] show ?thesis by blast
qed

lemma preseed_bad_target:
  assumes "\<forall>cage\<in>set cs. length (cells cage) = 1 \<longrightarrow> cageInside n cage"
    and "cage \<in> set cs" and "length (cells cage) = 1"
    and "target cage < 1 \<or> n < target cage" and "tables_ok n st"
  shows "preseed n cs st = Inr None"
  using assms(1,2,5)
proof (induction cs arbitrary: st)
  case Nil
  then show ?case by simp
next
  case (Cons a cs)
  show ?case
  proof (cases "length (cells a) = 1")
    case False
    with Cons.prems(2) assms(3) have "cage \<in> set cs" by auto
    with Cons False show ?thesis by simp
  next
    case True
    obtain r c where rc: "hd (cells a) = (r, c)" by (cases "hd (cells a)")
    from Cons.prems(1) True have "cageInside n a" by simp
    from preseed_step [OF Cons.prems(3) True this rc, of cs] obtain st1 ru cu where
      ok: "tables_ok n st1" and eq: "preseed n (a # cs) st =
            (if target a < 1 \<or> n < target a \<or> ru \<or> cu then Inr None
             else preseed n cs st1)" by blast
    show ?thesis
    proof (cases "a = cage")
      case True
      with eq assms(4) show ?thesis by auto
    next
      case False
      with Cons.prems(2) have "cage \<in> set cs" by simp
      with Cons.IH [OF _ this ok] Cons.prems(1) eq show ?thesis by simp
    qed
  qed
qed

lemma preseed_marked:
  assumes "\<forall>cage\<in>set cs. length (cells cage) = 1 \<longrightarrow> cageInside n cage"
    and "cage \<in> set cs" and "length (cells cage) = 1" and "hd (cells cage) = (r, c)"
    and "usedAt (rowUsed st) r (target cage) = Inr True
       \<or> usedAt (colUsed st) c (target cage) = Inr True"
    and "tables_ok n st"
  shows "preseed n cs st = Inr None"
  using assms(1,2,5,6)
proof (induction cs arbitrary: st)
  case Nil
  then show ?case by simp
next
  case (Cons a cs)
  show ?case
  proof (cases "length (cells a) = 1")
    case False
    with Cons.prems(2) assms(3) have "cage \<in> set cs" by auto
    with Cons False show ?thesis by simp
  next
    case True
    obtain r' c' where rc: "hd (cells a) = (r', c')" by (cases "hd (cells a)")
    from Cons.prems(1) True have "cageInside n a" by simp
    from preseed_step [OF Cons.prems(4) True this rc, of cs] obtain st1 ru cu where
      ru: "usedAt (rowUsed st) r' (target a) = Inr ru"
      and cu: "usedAt (colUsed st) c' (target a) = Inr cu"
      and p: "place st r' c' (target a) = Inr st1"
      and ok: "tables_ok n st1" and eq: "preseed n (a # cs) st =
            (if target a < 1 \<or> n < target a \<or> ru \<or> cu then Inr None
             else preseed n cs st1)" by blast
    show ?thesis
    proof (cases "a = cage")
      case True
      with rc assms(4) have "r' = r" "c' = c" by simp_all
      with True ru cu Cons.prems(3) have "ru \<or> cu" by auto
      with eq show ?thesis by simp
    next
      case False
      with Cons.prems(2) have in_rest: "cage \<in> set cs" by simp
      from Cons.prems(3) place_keeps [OF p]
      have "usedAt (rowUsed st1) r (target cage) = Inr True
          \<or> usedAt (colUsed st1) c (target cage) = Inr True" by blast
      from Cons.IH [OF _ in_rest this ok] Cons.prems(1) eq show ?thesis by simp
    qed
  qed
qed

lemma preseed_pair:
  assumes "\<forall>cage\<in>set (xs @ a # ys). length (cells cage) = 1 \<longrightarrow> cageInside n cage"
    and "length (cells a) = 1" and "b \<in> set ys" and "length (cells b) = 1"
    and "target a = target b"
    and "fst (hd (cells a)) = fst (hd (cells b)) \<or> snd (hd (cells a)) = snd (hd (cells b))"
    and "tables_ok n st"
  shows "preseed n (xs @ a # ys) st = Inr None"
  using assms(1,7)
proof (induction xs arbitrary: st)
  case Nil
  obtain r c where rc: "hd (cells a) = (r, c)" by (cases "hd (cells a)")
  obtain r' c' where rc': "hd (cells b) = (r', c')" by (cases "hd (cells b)")
  from Nil.prems(1) assms(2) have "cageInside n a" by simp
  from preseed_step [OF Nil.prems(2) assms(2) this rc, of ys] obtain st1 ru cu where
    p: "place st r c (target a) = Inr st1"
    and ok: "tables_ok n st1" and eq: "preseed n (a # ys) st =
          (if target a < 1 \<or> n < target a \<or> ru \<or> cu then Inr None
           else preseed n ys st1)" by blast
  show ?case
  proof (cases "target a < 1 \<or> n < target a \<or> ru \<or> cu")
    case True
    with eq show ?thesis by simp
  next
    case False
    then have "1 \<le> target a" "target a \<le> n" by simp_all
    from place_marks [OF Nil.prems(2) this p] assms(5,6) rc rc'
    have "usedAt (rowUsed st1) r' (target b) = Inr True
        \<or> usedAt (colUsed st1) c' (target b) = Inr True" by auto
    from preseed_marked [OF _ assms(3,4) rc' this ok] Nil.prems(1)
    have "preseed n ys st1 = Inr None" by simp
    with eq False show ?thesis by simp
  qed
next
  case (Cons x xs)
  from Cons.prems(1)
  have rest: "\<forall>cage\<in>set (xs @ a # ys). length (cells cage) = 1 \<longrightarrow> cageInside n cage"
    by simp
  show ?case
  proof (cases "length (cells x) = 1")
    case False
    with Cons.IH [OF rest Cons.prems(2)] show ?thesis by simp
  next
    case True
    obtain r c where rc: "hd (cells x) = (r, c)" by (cases "hd (cells x)")
    from Cons.prems(1) True have "cageInside n x" by simp
    from preseed_step [OF Cons.prems(2) True this rc, of "xs @ a # ys"] obtain st1 ru cu where
      ok: "tables_ok n st1" and eq: "preseed n (x # xs @ a # ys) st =
            (if target x < 1 \<or> n < target x \<or> ru \<or> cu then Inr None
             else preseed n (xs @ a # ys) st1)" by blast
    with Cons.IH [OF rest ok] show ?thesis by simp
  qed
qed

text \<open>
  C6, as the code has it. For every puzzle whose single-cell cages lie inside the grid:
  if one of them has a target outside \<open>[1, n]\<close>, or two of them in the same row or the
  same column have equal targets, the pre-seeding loop returns \<^verbatim>\<open>null\<close>, so
  \<^verbatim>\<open>solveKenKen\<close> returns no-solution and no search is started.
\<close>

theorem preseed_rejects:
  assumes "\<forall>cage\<in>set (cages p). length (cells cage) = 1 \<longrightarrow> cageInside (psize p) cage"
    and "(\<exists>cage\<in>set (cages p). length (cells cage) = 1 \<and>
            (target cage < 1 \<or> psize p < target cage))
       \<or> (\<exists>i j. i < j \<and> j < length (cages p)
            \<and> length (cells (cages p ! i)) = 1 \<and> length (cells (cages p ! j)) = 1
            \<and> target (cages p ! i) = target (cages p ! j)
            \<and> (fst (hd (cells (cages p ! i))) = fst (hd (cells (cages p ! j)))
               \<or> snd (hd (cells (cages p ! i))) = snd (hd (cells (cages p ! j)))))"
  shows "preseed (psize p) (cages p) (initState (psize p)) = Inr None
       \<and> solveKenKen p = Some (Inr None)"
proof -
  let ?n = "psize p" and ?cs = "cages p"
  have pre: "preseed ?n ?cs (initState ?n) = Inr None"
    using assms(2)
  proof
    assume "\<exists>cage\<in>set ?cs. length (cells cage) = 1 \<and> (target cage < 1 \<or> ?n < target cage)"
    then obtain cage where "cage \<in> set ?cs" "length (cells cage) = 1"
      "target cage < 1 \<or> ?n < target cage" by blast
    from preseed_bad_target [OF assms(1) this initState_ok] show ?thesis .
  next
    assume "\<exists>i j. i < j \<and> j < length ?cs
            \<and> length (cells (?cs ! i)) = 1 \<and> length (cells (?cs ! j)) = 1
            \<and> target (?cs ! i) = target (?cs ! j)
            \<and> (fst (hd (cells (?cs ! i))) = fst (hd (cells (?cs ! j)))
               \<or> snd (hd (cells (?cs ! i))) = snd (hd (cells (?cs ! j))))"
    then obtain i j where ij: "i < j" "j < length ?cs"
      and a: "length (cells (?cs ! i)) = 1" and b: "length (cells (?cs ! j)) = 1"
      and t: "target (?cs ! i) = target (?cs ! j)"
      and rc: "fst (hd (cells (?cs ! i))) = fst (hd (cells (?cs ! j)))
               \<or> snd (hd (cells (?cs ! i))) = snd (hd (cells (?cs ! j)))" by blast
    from ij have split: "?cs = take i ?cs @ ?cs ! i # drop (Suc i) ?cs"
      by (simp add: id_take_nth_drop)
    from ij have "?cs ! j = drop (Suc i) ?cs ! (j - Suc i)" by simp
    moreover from ij have "j - Suc i < length (drop (Suc i) ?cs)" by simp
    ultimately have mem: "?cs ! j \<in> set (drop (Suc i) ?cs)" by (metis nth_mem)
    from assms(1) split
    have "\<forall>cage\<in>set (take i ?cs @ ?cs ! i # drop (Suc i) ?cs).
            length (cells cage) = 1 \<longrightarrow> cageInside ?n cage" by simp
    from preseed_pair [OF this a mem b t rc initState_ok] split show ?thesis by simp
  qed
  then show ?thesis by (simp add: solveKenKen_def Let_def)
qed

theorem preseed_rejects_witness:
  "cages puzzle_bad_target = [\<lparr>cells = [(0, 0)], target = 5, op = Equals\<rparr>]
   \<and> cageInside 4 \<lparr>cells = [(0, 0)], target = 5, op = Equals\<rparr>
   \<and> preseed 4 (cages puzzle_bad_target) (initState 4) = Inr None
   \<and> solveKenKen puzzle_bad_target = Some (Inr None)"
proof -
  have n: "psize puzzle_bad_target = 4" by (simp add: puzzle_bad_target_def)
  have cs: "cages puzzle_bad_target = [\<lparr>cells = [(0, 0)], target = 5, op = Equals\<rparr>]"
    by (simp add: puzzle_bad_target_def)
  have ins: "cageInside 4 \<lparr>cells = [(0, 0)], target = 5, op = Equals\<rparr>"
    by (simp add: cageInside_def)
  have h1: "\<forall>cage\<in>set (cages puzzle_bad_target).
      length (cells cage) = 1 \<longrightarrow> cageInside (psize puzzle_bad_target) cage"
    by (simp add: cs n ins)
  have h2: "\<exists>cage\<in>set (cages puzzle_bad_target). length (cells cage) = 1 \<and>
      (target cage < 1 \<or> psize puzzle_bad_target < target cage)"
    by (simp add: cs n)
  from preseed_rejects [OF h1 disjI1 [OF h2]] cs ins show ?thesis by (simp add: n)
qed

text \<open>
  C6 as stated fails when a single-cell cage lies outside the grid: in \<open>puzzle_outside\<close>
  the loop reads \<^verbatim>\<open>rowUsed[5][1]\<close> for the first cage and throws before it reaches
  the cage with the target 7.
\<close>

theorem preseed_throws_outside_grid:
  "length (cells (cages puzzle_outside ! 1)) = 1
   \<and> psize puzzle_outside < target (cages puzzle_outside ! 1)
   \<and> solveKenKen puzzle_outside = Some (Inl TypeError)"
  by code_simp

section \<open>The size guard\<close>

text \<open>
  C4, as the code has it. The guard of \<^verbatim>\<open>solveKenKen\<close> is \<^verbatim>\<open>n < 1\<close>: a puzzle of size
  below 1 yields no-solution before any table is built. A puzzle of size 1 passes the
  guard and is solved like any other.
\<close>

theorem size_guard:
  "psize puzzle < 1 \<Longrightarrow> solveKenKen puzzle = Some (Inr None)"
  by (simp add: solveKenKen_def)

theorem size_guard_witness:
  "psize \<lparr>psize = 0, cages = []\<rparr> < 1 \<and> solveKenKen \<lparr>psize = 0, cages = []\<rparr> = Some (Inr None)"
  using size_guard [of "\<lparr>psize = 0, cages = []\<rparr>"] by simp

text \<open>C4 as stated fails: the 1\<times>1 puzzle with the cage \<open>= 1\<close> is solved.\<close>

theorem size_one_solved:
  "psize puzzle_1x1 = 1 \<and> solveKenKen puzzle_1x1 = Some (Inr (Some [[1]]))"
  by code_simp

section \<open>Dead ends and cells without a cage\<close>

text \<open>
  C1 at \<open>puzzle_dead_cell\<close>. After pre-seeding, \<^verbatim>\<open>selectNext\<close> finds no candidate for the
  cell (0, 1) and returns \<^verbatim>\<open>null\<close>; \<^verbatim>\<open>backtrack\<close> takes \<^verbatim>\<open>null\<close> for a complete grid,
  every cage passes its partial test, and the grid returned still holds zeros.
\<close>

theorem dead_cell_returns_partial_grid:
  "solveKenKen puzzle_dead_cell = Some (Inr (Some [[1, 0, 0], [0, 2, 0], [0, 3, 0]]))"
  by code_simp

text \<open>
  C2 at \<open>puzzle_uncovered\<close>. The cell (2, 2) has no cage; \<^verbatim>\<open>selectNext\<close> selects it with
  the candidate 2, and \<^verbatim>\<open>backtrack\<close> passes the missing cage to \<^verbatim>\<open>cageValidPartial\<close>,
  which throws.
\<close>

theorem uncovered_cell_throws:
  "solveKenKen puzzle_uncovered = Some (Inl TypeError)"
  by code_simp

end
